theory Spec2Isabelle
  imports Complex_Main
begin

section \<open>Configuration parameters\<close>

text \<open>
  The module-level constants of \<^verbatim>\<open>battle.py\<close>. Python floats are read as reals
  (\<^verbatim>\<open>math.pi / 310\<close> is \<open>pi / 310\<close>); Python integers are \<open>int\<close>, except where
  the value is only ever used as a loop bound or an index, where it is \<open>nat\<close>.
\<close>

definition rotation_angle :: real where
  "rotation_angle = pi / 310"

definition cycle_count :: nat where
  "cycle_count = 30"



section \<open>Matrices\<close>

text \<open>
  \<^verbatim>\<open>np.zeros((n, n))\<close> is a list of \<open>n\<close> rows of \<open>n\<close> zeros. The entries the
  program ever stores are \<open>0\<close>, \<open>1\<close> and \<open>-1\<close>, which the float matrix holds exactly.
\<close>

type_synonym matrix = "int list list"

definition zeros :: "nat \<Rightarrow> matrix" where
  "zeros n = replicate n (replicate n 0)"

definition mat_set :: "matrix \<Rightarrow> nat \<Rightarrow> nat \<Rightarrow> int \<Rightarrow> matrix" where
  "mat_set m r c v = m[r := (m ! r)[c := v]]"

text \<open>\<^verbatim>\<open>np.sum(m == v)\<close>: the number of entries of \<open>m\<close> equal to \<open>v\<close>.\<close>

definition mat_count :: "matrix \<Rightarrow> int \<Rightarrow> int" where
  "mat_count m v = (\<Sum>row\<leftarrow>m. int (count_list row v))"

definition square :: "nat \<Rightarrow> matrix \<Rightarrow> bool" where
  "square n m = (length m = n \<and> list_all (\<lambda>row. length row = n) m)"

section \<open>The run's configuration\<close>

record config =
  grid_dim :: nat
  target_count :: int
  target_matrix :: matrix

definition cell_count :: "config \<Rightarrow> int" where
  "cell_count c = int (grid_dim c) ^ 2"


section \<open>Target placement\<close>

text \<open>
  The placement loop (lines 104 to 113). Each iteration calls \<^verbatim>\<open>random.randint(0, grid_dim - 1)\<close>
  twice; the results of the two calls are one element \<open>(r, col)\<close> of the list \<open>draws\<close>.
  The list is a finite prefix of what the generator returns: \<open>None\<close> says that the loop is
  still running when the prefix is used up. An index outside the matrix raises
  \<^verbatim>\<open>IndexError\<close> in numpy.
\<close>

datatype error = IndexError

fun place_targets ::
  "nat \<Rightarrow> int \<Rightarrow> matrix \<Rightarrow> int \<Rightarrow> (nat \<times> nat) list \<Rightarrow> (error + matrix) option" where
  "place_targets gd tc tm placed [] = (if placed < tc then None else Some (Inr tm))"
| "place_targets gd tc tm placed ((r, col) # draws) =
     (if placed < tc then
        (if r < gd \<and> col < gd then
           (if tm ! r ! col \<noteq> 1 then
              place_targets gd tc (mat_set tm r col 1) (placed + 1) draws
            else place_targets gd tc tm placed draws)
         else Some (Inl IndexError))
      else Some (Inr tm))"

definition place :: "nat \<Rightarrow> int \<Rightarrow> (nat \<times> nat) list \<Rightarrow> (error + matrix) option" where
  "place gd tc draws = place_targets gd tc (zeros gd) 0 draws"

section \<open>The two observation circuits\<close>

text \<open>
  A \<^verbatim>\<open>QuantumCircuit\<close> is its register sizes and its instruction list; \<^verbatim>\<open>ry\<close> and
  \<^verbatim>\<open>measure\<close> append one instruction. Lines 119 to 127.
\<close>

datatype instruction = Ry real nat | Measure nat nat

record circuit =
  num_qubits :: nat
  num_clbits :: nat
  instrs :: "instruction list"

definition QuantumCircuit :: "nat \<Rightarrow> nat \<Rightarrow> circuit" where
  "QuantumCircuit q k = \<lparr>num_qubits = q, num_clbits = k, instrs = []\<rparr>"

definition ry :: "real \<Rightarrow> nat \<Rightarrow> circuit \<Rightarrow> circuit" where
  "ry theta q qc = qc\<lparr>instrs := instrs qc @ [Ry theta q]\<rparr>"

definition measure_op :: "nat \<Rightarrow> nat \<Rightarrow> circuit \<Rightarrow> circuit" where
  "measure_op q k qc = qc\<lparr>instrs := instrs qc @ [Measure q k]\<rparr>"

text \<open>The body of the set-up loop, for the loop index \<open>i\<close>, on the pair of circuits.\<close>

definition cycle_step :: "nat \<Rightarrow> circuit \<times> circuit \<Rightarrow> circuit \<times> circuit" where
  "cycle_step i qcs =
     (let target = ry (2 * rotation_angle) 0 (fst qcs);
          clear = ry (2 * rotation_angle) 0 (snd qcs)
      in (measure_op 0 i target, clear))"

definition observation_cycle :: "circuit \<times> circuit" where
  "observation_cycle =
     fold cycle_step [0..<cycle_count] (QuantumCircuit 1 cycle_count, QuantumCircuit 1 1)"

definition target_qc :: circuit where
  "target_qc = fst observation_cycle"

definition clear_qc :: circuit where
  "clear_qc = measure_op 0 0 (snd observation_cycle)"

text \<open>
  Transpilation (lines 130 to 149) is the library's; it keeps the classical register and the
  meaning of the circuit, and is the identity here.
\<close>

definition comp_target_qc :: circuit where
  "comp_target_qc = target_qc"

definition comp_clear_qc :: circuit where
  "comp_clear_qc = clear_qc"

text \<open>The sum of the rotation parameters of a circuit, and its reads.\<close>

fun ry_angle :: "instruction \<Rightarrow> real" where
  "ry_angle (Ry theta q) = theta"
| "ry_angle (Measure q k) = 0"

fun is_read :: "instruction \<Rightarrow> bool" where
  "is_read (Ry theta q) = False"
| "is_read (Measure q k) = True"

definition net_rotation :: "circuit \<Rightarrow> real" where
  "net_rotation qc = (\<Sum>g\<leftarrow>instrs qc. ry_angle g)"

section \<open>Run state\<close>

text \<open>
  The module-level variables the scan reads and writes. \<open>state\<close> adds the sampler and a
  ghost log: the sampler is the finite list of the answers of the next invocations, each a
  function of the circuit it is handed (one shot: a list of bit strings, as
  \<^verbatim>\<open>get_memory()\<close> and \<^verbatim>\<open>get_bitstrings()\<close> return it); \<open>history\<close> records, newest
  first, the cell and the variables before each completed probe.
\<close>

record metrics =
  result_matrix :: matrix
  targets_hit :: int
  clear_cells_detected :: int
  cycle_executions :: int

record probe_event =
  at_row :: nat
  at_col :: nat
  before :: metrics

record state = metrics +
  sampler :: "(circuit \<Rightarrow> string list) list"
  history :: "probe_event list"

definition snapshot :: "state \<Rightarrow> metrics" where
  "snapshot st = \<lparr>result_matrix = result_matrix st, targets_hit = targets_hit st,
     clear_cells_detected = clear_cells_detected st, cycle_executions = cycle_executions st\<rparr>"

definition init_state :: "config \<Rightarrow> (circuit \<Rightarrow> string list) list \<Rightarrow> state" where
  "init_state c smp = \<lparr>result_matrix = zeros (grid_dim c), targets_hit = 0,
     clear_cells_detected = 0, cycle_executions = 0, sampler = smp, history = []\<rparr>"

text \<open>
  What a call gives back: a value, an exception, or \<open>Starved\<close> when the recorded sampler
  answers are used up and the program is waiting for the next one; \<open>Starved\<close> carries the
  state in which the probe was requested.
\<close>

datatype ('a, 's) result = Returned 'a | Starved 's | Raised error

section \<open>Probing a cell\<close>

definition exec_quantum :: "circuit \<Rightarrow> state \<Rightarrow> (string list \<times> state) option" where
  "exec_quantum qc st =
     (case sampler st of
        [] \<Rightarrow> None
      | f # fs \<Rightarrow> Some (f qc, st\<lparr>sampler := fs\<rparr>))"

definition probe_cell :: "bool \<Rightarrow> state \<Rightarrow> (int \<times> state, state) result" where
  "probe_cell has_target st0 =
     (let st = st0\<lparr>cycle_executions := cycle_executions st0 + 1\<rparr>;
          qc_to_use = (if has_target then comp_target_qc else comp_clear_qc)
      in case exec_quantum qc_to_use st of
           None \<Rightarrow> Starved st0
         | Some (res_mem, st1) \<Rightarrow>
             (case res_mem of
                [] \<Rightarrow> Raised IndexError
              | bits # rest \<Rightarrow>
                  if has_target then
                    (if CHR ''1'' \<in> set bits
                     then Returned (1, st1\<lparr>targets_hit := targets_hit st1 + 1\<rparr>)
                     else Returned (0, st1))
                  else
                    (case bits of
                       [] \<Rightarrow> Raised IndexError
                     | b # bs \<Rightarrow>
                         if b = CHR ''1''
                         then Returned (- 1, st1\<lparr>clear_cells_detected := clear_cells_detected st1 + 1\<rparr>)
                         else Returned (0, st1))))"

section \<open>The scan\<close>

definition finished :: "config \<Rightarrow> 'a metrics_scheme \<Rightarrow> bool" where
  "finished c m = (clear_cells_detected m + target_count c \<ge> cell_count c)"

text \<open>
  Line 197 with its guard's body: probe the cell, store the answer in the result matrix.
  The ghost log gets the cell and the variables as they were before the probe.
\<close>

definition probe_at :: "config \<Rightarrow> nat \<Rightarrow> nat \<Rightarrow> state \<Rightarrow> (state, state) result" where
  "probe_at c row col st =
     (case probe_cell (target_matrix c ! row ! col \<noteq> 0) st of
        Returned (v, st1) \<Rightarrow>
          Returned (st1\<lparr>result_matrix := mat_set (result_matrix st1) row col v,
                        history := \<lparr>at_row = row, at_col = col, before = snapshot st\<rparr> # history st1\<rparr>)
      | Starved s \<Rightarrow> Starved s
      | Raised e \<Rightarrow> Raised e)"

text \<open>The inner loop over the columns of one row (lines 194 to 201).\<close>

fun scan_cols :: "config \<Rightarrow> nat \<Rightarrow> nat list \<Rightarrow> state \<Rightarrow> (state, state) result" where
  "scan_cols c row [] st = Returned st"
| "scan_cols c row (col # cols) st =
     (if result_matrix st ! row ! col = 0 then
        (case probe_at c row col st of
           Returned st' \<Rightarrow>
             if finished c st' then Returned st'
             else scan_cols c row cols st'
         | Starved s \<Rightarrow> Starved s
         | Raised e \<Rightarrow> Raised e)
      else scan_cols c row cols st)"

text \<open>The loop over the rows (lines 191 to 193).\<close>

fun scan_rows :: "config \<Rightarrow> nat list \<Rightarrow> state \<Rightarrow> (state, state) result" where
  "scan_rows c [] st = Returned st"
| "scan_rows c (row # rows) st =
     (if finished c st then Returned st
      else
        (case scan_cols c row [0..<grid_dim c] st of
           Returned st' \<Rightarrow> scan_rows c rows st'
         | Starved s \<Rightarrow> Starved s
         | Raised e \<Rightarrow> Raised e))"

text \<open>
  The outer \<^verbatim>\<open>while\<close> (line 190). It has no bound: \<open>None\<close> is a run that sweeps for ever
  without asking the sampler for anything.
\<close>

partial_function (option) scan_loop :: "config \<Rightarrow> state \<Rightarrow> (state, state) result option" where
  "scan_loop c st =
     (if clear_cells_detected st + target_count c < cell_count c then
        (case scan_rows c [0..<grid_dim c] st of
           Returned st' \<Rightarrow> scan_loop c st'
         | Starved s \<Rightarrow> Some (Starved s)
         | Raised e \<Rightarrow> Some (Raised e))
      else Some (Returned st))"

text \<open>Line 208: the hit count recomputed from the result matrix for the report.\<close>

definition report_targets_hit :: "'a metrics_scheme \<Rightarrow> int" where
  "report_targets_hit m = mat_count (result_matrix m) 1"

section \<open>Predicates on configurations and runs\<close>

text \<open>
  What the placement loop hands to the scan: a square 0/1 matrix with \<open>target_count\<close> ones.
\<close>

definition wf_config :: "config \<Rightarrow> bool" where
  "wf_config c =
     (square (grid_dim c) (target_matrix c) \<and>
      list_all (list_all (\<lambda>x. x = 0 \<or> x = 1)) (target_matrix c) \<and>
      mat_count (target_matrix c) 1 = target_count c)"

text \<open>
  One shot of a circuit answers with one bit string, one character \<open>0\<close> or \<open>1\<close> for each
  classical bit of the circuit.
\<close>

definition one_shot :: "circuit \<Rightarrow> string list \<Rightarrow> bool" where
  "one_shot qc mem =
     (case mem of
        [bits] \<Rightarrow> length bits = num_clbits qc \<and> list_all (\<lambda>b. b = CHR ''0'' \<or> b = CHR ''1'') bits
      | _ \<Rightarrow> False)"

text \<open>
  A sampler all of whose answers are one shot of whichever of the two circuits it is handed.
\<close>

definition sampler_ok :: "(circuit \<Rightarrow> string list) list \<Rightarrow> bool" where
  "sampler_ok smp =
     list_all (\<lambda>f. one_shot comp_target_qc (f comp_target_qc) \<and>
                    one_shot comp_clear_qc (f comp_clear_qc)) smp"

text \<open>The cells of an \<open>n\<close> by \<open>n\<close> matrix that hold \<open>v\<close>.\<close>

definition cells :: "nat \<Rightarrow> matrix \<Rightarrow> int \<Rightarrow> (nat \<times> nat) set" where
  "cells n m v = {(r, k). r < n \<and> k < n \<and> m ! r ! k = v}"

text \<open>
  The points of a run at which the variables can be observed: now, and before each probe
  made so far; newest first.
\<close>

definition trace :: "state \<Rightarrow> metrics list" where
  "trace st = snapshot st # map before (history st)"

text \<open>
  The variables agree with each other and with the target matrix: every entry of the
  result matrix is \<open>-1\<close>, \<open>0\<close> or \<open>1\<close>, a \<open>1\<close> only on a target and a \<open>-1\<close> only on a
  cell without one, and the two counters are the numbers of such entries.
\<close>

definition consistent :: "config \<Rightarrow> 'a metrics_scheme \<Rightarrow> bool" where
  "consistent c m =
     (square (grid_dim c) (result_matrix m) \<and>
      (\<forall>r<grid_dim c. \<forall>k<grid_dim c.
         (result_matrix m ! r ! k = 1 \<or> result_matrix m ! r ! k = 0 \<or> result_matrix m ! r ! k = - 1) \<and>
         (result_matrix m ! r ! k = 1 \<longrightarrow> target_matrix c ! r ! k \<noteq> 0) \<and>
         (result_matrix m ! r ! k = - 1 \<longrightarrow> target_matrix c ! r ! k = 0)) \<and>
      targets_hit m = mat_count (result_matrix m) 1 \<and>
      clear_cells_detected m = mat_count (result_matrix m) (- 1))"

text \<open>Every decided cell of the earlier matrix \<open>a\<close> has the same entry in the later one \<open>b\<close>.\<close>

definition absorbed :: "nat \<Rightarrow> matrix \<Rightarrow> matrix \<Rightarrow> bool" where
  "absorbed n a b = (\<forall>r<n. \<forall>k<n. a ! r ! k \<noteq> 0 \<longrightarrow> b ! r ! k = a ! r ! k)"

text \<open>
  The invariant of the scan, for a run that started with the sampler answers \<open>smp\<close>.
\<close>

definition run_ok :: "config \<Rightarrow> (circuit \<Rightarrow> string list) list \<Rightarrow> state \<Rightarrow> bool" where
  "run_ok c smp st =
     (consistent c st \<and>
      (\<forall>e\<in>set (history st).
         consistent c (before e) \<and> \<not> finished c (before e) \<and>
         at_row e < grid_dim c \<and> at_col e < grid_dim c \<and>
         result_matrix (before e) ! at_row e ! at_col e = 0) \<and>
      sorted_wrt (\<lambda>later earlier. absorbed (grid_dim c) (result_matrix earlier) (result_matrix later))
        (trace st) \<and>
      map (\<lambda>e. cycle_executions (before e)) (rev (history st)) = map int [0..<length (history st)] \<and>
      cycle_executions st = int (length (history st)) \<and>
      sampler st = drop (length (history st)) smp \<and>
      length (history st) \<le> length smp)"

section \<open>Example inputs\<close>

text \<open>
  A three by three board with eight targets: only the cell in row 0, column 0 is free.
  Two sampler answers: \<open>excited\<close> reads \<open>1\<close> on every classical bit of the circuit it
  is handed, \<open>ground\<close> reads \<open>0\<close> on every one.
\<close>

definition demo_config :: config where
  "demo_config = \<lparr>grid_dim = 3, target_count = 8,
     target_matrix = [[0, 1, 1], [1, 1, 1], [1, 1, 1]]\<rparr>"

definition excited :: "circuit \<Rightarrow> string list" where
  "excited qc = [replicate (num_clbits qc) CHR ''1'']"

definition ground :: "circuit \<Rightarrow> string list" where
  "ground qc = [replicate (num_clbits qc) CHR ''0'']"

text \<open>
  The state in which the scan of \<open>demo_config\<close> returns when the first answer is
  \<open>excited\<close>, and the state in which it waits for a third answer after \<open>ground\<close> and
  \<open>excited\<close>.
\<close>

definition demo_final :: state where
  "demo_final = \<lparr>result_matrix = [[- 1, 0, 0], [0, 0, 0], [0, 0, 0]], targets_hit = 0,
     clear_cells_detected = 1, cycle_executions = 1, sampler = [],
     history = [\<lparr>at_row = 0, at_col = 0,
       before = \<lparr>result_matrix = [[0, 0, 0], [0, 0, 0], [0, 0, 0]], targets_hit = 0,
         clear_cells_detected = 0, cycle_executions = 0\<rparr>\<rparr>]\<rparr>"

definition demo_pending :: state where
  "demo_pending = \<lparr>result_matrix = [[0, 1, 0], [0, 0, 0], [0, 0, 0]], targets_hit = 1,
     clear_cells_detected = 0, cycle_executions = 2, sampler = [],
     history = [\<lparr>at_row = 0, at_col = 1,
       before = \<lparr>result_matrix = [[0, 0, 0], [0, 0, 0], [0, 0, 0]], targets_hit = 0,
         clear_cells_detected = 0, cycle_executions = 1\<rparr>\<rparr>,
      \<lparr>at_row = 0, at_col = 0,
       before = \<lparr>result_matrix = [[0, 0, 0], [0, 0, 0], [0, 0, 0]], targets_hit = 0,
         clear_cells_detected = 0, cycle_executions = 0\<rparr>\<rparr>]\<rparr>"

text \<open>
  A second board, with the free cell in row 0, column 1, and the state in which its scan
  returns when both answers are \<open>excited\<close>: a hit, then the confirmation of the free cell.
\<close>

definition demo_config2 :: config where
  "demo_config2 = \<lparr>grid_dim = 3, target_count = 8,
     target_matrix = [[1, 0, 1], [1, 1, 1], [1, 1, 1]]\<rparr>"

definition demo_final2 :: state where
  "demo_final2 = \<lparr>result_matrix = [[1, - 1, 0], [0, 0, 0], [0, 0, 0]], targets_hit = 1,
     clear_cells_detected = 1, cycle_executions = 2, sampler = [],
     history = [\<lparr>at_row = 0, at_col = 1,
       before = \<lparr>result_matrix = [[1, 0, 0], [0, 0, 0], [0, 0, 0]], targets_hit = 1,
         clear_cells_detected = 0, cycle_executions = 1\<rparr>\<rparr>,
      \<lparr>at_row = 0, at_col = 0,
       before = \<lparr>result_matrix = [[0, 0, 0], [0, 0, 0], [0, 0, 0]], targets_hit = 0,
         clear_cells_detected = 0, cycle_executions = 0\<rparr>\<rparr>]\<rparr>"

section \<open>The circuits\<close>

lemma fold_cycle_step_snd:
  "snd (fold cycle_step [0..<n] (t, c)) =
     c\<lparr>instrs := instrs c @ replicate n (Ry (2 * rotation_angle) 0)\<rparr>"
  by (induction n) (simp_all add: cycle_step_def ry_def replicate_append_same)

lemma fold_cycle_step_fst:
  "fst (fold cycle_step [0..<n] (t, c)) =
     t\<lparr>instrs := instrs t @ concat (map (\<lambda>i. [Ry (2 * rotation_angle) 0, Measure 0 i]) [0..<n])\<rparr>"
  by (induction n) (simp_all add: cycle_step_def ry_def measure_op_def)

lemma clear_qc_instrs:
  "instrs clear_qc = replicate cycle_count (Ry (2 * rotation_angle) 0) @ [Measure 0 0]"
  by (simp add: clear_qc_def observation_cycle_def fold_cycle_step_snd measure_op_def
      QuantumCircuit_def)

lemma clear_qc_clbits: "num_clbits clear_qc = 1"
  by (simp add: clear_qc_def observation_cycle_def fold_cycle_step_snd measure_op_def
      QuantumCircuit_def)

lemma target_qc_instrs:
  "instrs target_qc =
     concat (map (\<lambda>i. [Ry (2 * rotation_angle) 0, Measure 0 i]) [0..<cycle_count])"
  by (simp add: target_qc_def observation_cycle_def fold_cycle_step_fst QuantumCircuit_def)

lemma target_qc_clbits: "num_clbits target_qc = cycle_count"
  by (simp add: target_qc_def observation_cycle_def fold_cycle_step_fst QuantumCircuit_def)

lemma sum_list_replicate_real: "sum_list (replicate n (x::real)) = real n * x"
  by (induction n) (simp_all add: algebra_simps)

lemma clear_qc_net_rotation: "net_rotation clear_qc = real cycle_count * (2 * rotation_angle)"
  by (simp add: net_rotation_def clear_qc_instrs sum_list_replicate_real)

lemma clear_qc_reads: "filter is_read (instrs clear_qc) = [Measure 0 0]"
  by (simp add: clear_qc_instrs)

lemma interleaved_reads:
  "filter is_read (concat (map (\<lambda>i. [Ry theta 0, Measure 0 i]) [0..<n])) = map (Measure 0) [0..<n]"
  by (induction n) simp_all

lemma target_qc_reads: "filter is_read (instrs target_qc) = map (Measure 0) [0..<cycle_count]"
  by (simp add: target_qc_instrs interleaved_reads)

section \<open>One probe\<close>

lemma probe_cell_present:
  assumes "sampler st = f # fs" and "f comp_target_qc = bits # rest"
  shows "probe_cell True st =
     (if CHR ''1'' \<in> set bits
      then Returned (1, st\<lparr>cycle_executions := cycle_executions st + 1, sampler := fs,
                         targets_hit := targets_hit st + 1\<rparr>)
      else Returned (0, st\<lparr>cycle_executions := cycle_executions st + 1, sampler := fs\<rparr>))"
  using assms by (simp add: probe_cell_def exec_quantum_def)

lemma probe_cell_absent:
  assumes "sampler st = f # fs" and "f comp_clear_qc = (b # bs) # rest"
  shows "probe_cell False st =
     (if b = CHR ''1''
      then Returned (- 1, st\<lparr>cycle_executions := cycle_executions st + 1, sampler := fs,
                         clear_cells_detected := clear_cells_detected st + 1\<rparr>)
      else Returned (0, st\<lparr>cycle_executions := cycle_executions st + 1, sampler := fs\<rparr>))"
  using assms by (simp add: probe_cell_def exec_quantum_def)

text \<open>Everything that is known when \<open>probe_cell\<close> returns.\<close>

lemma probe_cell_Returned:
  assumes "probe_cell has_target st = Returned (v, st')"
  obtains f bits rest where "sampler st = f # sampler st'"
    and "f (if has_target then comp_target_qc else comp_clear_qc) = bits # rest"
    and "history st' = history st" and "result_matrix st' = result_matrix st"
    and "cycle_executions st' = cycle_executions st + 1"
    and "has_target \<Longrightarrow> v = (if CHR ''1'' \<in> set bits then 1 else 0)"
    and "\<not> has_target \<Longrightarrow> bits \<noteq> [] \<and> v = (if hd bits = CHR ''1'' then - 1 else 0)"
    and "targets_hit st' = targets_hit st + (if v = 1 then 1 else 0)"
    and "clear_cells_detected st' = clear_cells_detected st + (if v = - 1 then 1 else 0)"
  using assms
  by (auto simp: probe_cell_def exec_quantum_def split: list.splits if_splits)

lemma probe_cell_Starved:
  "probe_cell has_target st = Starved s \<Longrightarrow> s = st \<and> sampler st = []"
  by (auto simp: probe_cell_def exec_quantum_def split: list.splits if_splits)

section \<open>Counting in matrices\<close>

lemma square_zeros: "square n (zeros n)"
  by (simp add: square_def zeros_def list_all_iff)

lemma square_nth: "square n m \<Longrightarrow> r < n \<Longrightarrow> length (m ! r) = n"
  by (simp add: square_def list_all_length)

lemma square_length: "square n m \<Longrightarrow> length m = n"
  by (simp add: square_def)

lemma square_mat_set: "square n m \<Longrightarrow> square n (mat_set m r k v)"
  by (cases "r < length m") (auto simp: square_def mat_set_def list_all_length nth_list_update)

lemma mat_set_nth:
  "square n m \<Longrightarrow> r < n \<Longrightarrow> k < n \<Longrightarrow> r' < n \<Longrightarrow> k' < n \<Longrightarrow>
   mat_set m r k v ! r' ! k' = (if r' = r \<and> k' = k then v else m ! r' ! k')"
  by (auto simp: mat_set_def nth_list_update square_def list_all_length)


lemma zeros_nth: "r < n \<Longrightarrow> k < n \<Longrightarrow> zeros n ! r ! k = 0"
  by (simp add: zeros_def)

lemma finite_cells: "finite (cells n m v)"
proof -
  have "cells n m v \<subseteq> {..<n} \<times> {..<n}" by (auto simp: cells_def)
  then show ?thesis by (rule finite_subset) simp
qed

lemma count_list_card: "count_list xs v = card {i. i < length xs \<and> xs ! i = v}"
proof -
  have "{i. i < length xs \<and> v = xs ! i} = {i. i < length xs \<and> xs ! i = v}" by auto
  then show ?thesis by (simp add: count_list_eq_length_filter length_filter_conv_card)
qed

lemma mat_count_cells:
  assumes "square n m"
  shows "mat_count m v = int (card (cells n m v))"
proof -
  have len: "length m = n" and rows: "\<And>r. r < n \<Longrightarrow> length (m ! r) = n"
    using assms by (simp_all add: square_length square_nth)
  have "cells n m v = (SIGMA r:{..<n}. {k. k < n \<and> m ! r ! k = v})"
    by (auto simp: cells_def)
  then have "card (cells n m v) = (\<Sum>r<n. card {k. k < n \<and> m ! r ! k = v})"
    by (simp add: card_SigmaI)
  also have "\<dots> = (\<Sum>r<n. count_list (m ! r) v)"
    by (rule sum.cong) (simp_all add: count_list_card rows)
  also have "int \<dots> = mat_count m v"
    unfolding mat_count_def by (simp add: sum_list_sum_nth len atLeast0LessThan)
  finally show ?thesis by simp
qed

lemma cells_mat_set:
  assumes "square n m" "r < n" "k < n"
  shows "cells n (mat_set m r k v) w =
           (if v = w then insert (r, k) (cells n m w) else cells n m w - {(r, k)})"
  using assms by (auto simp: cells_def mat_set_nth)

lemma mat_count_mat_set:
  assumes "square n m" "r < n" "k < n"
  shows "mat_count (mat_set m r k v) w =
           mat_count m w - (if m ! r ! k = w then 1 else 0) + (if v = w then 1 else 0)"
proof -
  have mem: "(r, k) \<in> cells n m w \<longleftrightarrow> m ! r ! k = w"
    using assms by (simp add: cells_def)
  have pos: "m ! r ! k = w \<Longrightarrow> int (card (cells n m w) - Suc 0) = int (card (cells n m w)) - 1"
  proof -
    assume "m ! r ! k = w"
    then have "0 < card (cells n m w)"
      using mem finite_cells[of n m w] by (auto simp: card_gt_0_iff)
    then show ?thesis by simp
  qed
  show ?thesis
    using mem pos
    by (simp add: mat_count_cells[OF square_mat_set[OF assms(1)]] mat_count_cells[OF assms(1)]
        cells_mat_set[OF assms] finite_cells card_insert_if card_Diff_singleton_if)
qed

lemma mat_count_zeros: "mat_count (zeros n) v = (if v = 0 then int n ^ 2 else 0)"
proof -
  have "cells n (zeros n) v = (if v = 0 then {..<n} \<times> {..<n} else {})"
    by (auto simp: cells_def zeros_nth)
  then show ?thesis
    by (simp add: mat_count_cells[OF square_zeros] power2_eq_square)
qed

section \<open>The invariant of the scan\<close>

lemma consistent_snapshot [simp]: "consistent c (snapshot st) = consistent c st"
  by (simp add: consistent_def snapshot_def)

lemma finished_snapshot [simp]: "finished c (snapshot st) = finished c st"
  by (simp add: finished_def snapshot_def)

lemma result_matrix_snapshot [simp]: "result_matrix (snapshot st) = result_matrix st"
  by (simp add: snapshot_def)

lemma absorbed_refl: "absorbed n a a"
  by (simp add: absorbed_def)

lemma absorbed_trans: "absorbed n a b \<Longrightarrow> absorbed n b d \<Longrightarrow> absorbed n a d"
  by (auto simp: absorbed_def)

lemma absorbed_mat_set:
  "square n m \<Longrightarrow> r < n \<Longrightarrow> k < n \<Longrightarrow> m ! r ! k = 0 \<Longrightarrow> absorbed n m (mat_set m r k v)"
  by (auto simp: absorbed_def mat_set_nth)

lemma consistent_init: "consistent c (init_state c smp)"
  by (simp add: consistent_def init_state_def square_zeros zeros_nth mat_count_zeros)

lemma run_ok_init: "run_ok c smp (init_state c smp)"
  using consistent_init[of c smp]
  by (simp add: run_ok_def trace_def) (simp add: init_state_def)

text \<open>The new variables after a probe of an undecided cell that answered \<open>v\<close>.\<close>

lemma consistent_step:
  assumes con: "consistent c st"
    and r: "row < grid_dim c" and k: "col < grid_dim c"
    and u: "result_matrix st ! row ! col = 0"
    and rm: "result_matrix st' = mat_set (result_matrix st) row col v"
    and th: "targets_hit st' = targets_hit st + (if v = 1 then 1 else 0)"
    and cl: "clear_cells_detected st' = clear_cells_detected st + (if v = - 1 then 1 else 0)"
    and v: "v = 1 \<or> v = 0 \<or> v = - 1"
    and v1: "v = 1 \<Longrightarrow> target_matrix c ! row ! col \<noteq> 0"
    and v2: "v = - 1 \<Longrightarrow> target_matrix c ! row ! col = 0"
  shows "consistent c st'"
proof -
  have sq: "square (grid_dim c) (result_matrix st)"
    using con by (simp add: consistent_def)
  have ent: "\<And>r k. r < grid_dim c \<Longrightarrow> k < grid_dim c \<Longrightarrow>
      (result_matrix st ! r ! k = 1 \<or> result_matrix st ! r ! k = 0 \<or> result_matrix st ! r ! k = - 1) \<and>
      (result_matrix st ! r ! k = 1 \<longrightarrow> target_matrix c ! r ! k \<noteq> 0) \<and>
      (result_matrix st ! r ! k = - 1 \<longrightarrow> target_matrix c ! r ! k = 0)"
    using con by (simp add: consistent_def)
  have c1: "targets_hit st = mat_count (result_matrix st) 1"
    and c2: "clear_cells_detected st = mat_count (result_matrix st) (- 1)"
    using con by (simp_all add: consistent_def)
  have "square (grid_dim c) (result_matrix st')"
    by (simp add: rm square_mat_set sq)
  moreover have "\<forall>r<grid_dim c. \<forall>k<grid_dim c.
      (result_matrix st' ! r ! k = 1 \<or> result_matrix st' ! r ! k = 0 \<or> result_matrix st' ! r ! k = - 1) \<and>
      (result_matrix st' ! r ! k = 1 \<longrightarrow> target_matrix c ! r ! k \<noteq> 0) \<and>
      (result_matrix st' ! r ! k = - 1 \<longrightarrow> target_matrix c ! r ! k = 0)"
    using ent v v1 v2 by (simp add: rm mat_set_nth[OF sq r k])
  moreover have "targets_hit st' = mat_count (result_matrix st') 1"
    by (simp add: th rm mat_count_mat_set[OF sq r k] u c1)
  moreover have "clear_cells_detected st' = mat_count (result_matrix st') (- 1)"
    by (simp add: cl rm mat_count_mat_set[OF sq r k] u c2)
  ultimately show ?thesis by (simp add: consistent_def)
qed

lemma probe_at_Starved: "probe_at c row col st = Starved s \<Longrightarrow> s = st \<and> sampler st = []"
  by (auto simp: probe_at_def split: result.splits dest: probe_cell_Starved)

lemma probe_at_Returned:
  assumes ok: "run_ok c smp st" and nf: "\<not> finished c st"
    and r: "row < grid_dim c" and k: "col < grid_dim c"
    and u: "result_matrix st ! row ! col = 0"
    and p: "probe_at c row col st = Returned st'"
  shows "run_ok c smp st' \<and> length (history st') = Suc (length (history st))"
proof -
  let ?n = "grid_dim c"
  obtain v st1 where pc: "probe_cell (target_matrix c ! row ! col \<noteq> 0) st = Returned (v, st1)"
    and st': "st' = st1\<lparr>result_matrix := mat_set (result_matrix st1) row col v,
        history := \<lparr>at_row = row, at_col = col, before = snapshot st\<rparr> # history st1\<rparr>"
    using p by (auto simp: probe_at_def split: result.splits)
  from pc obtain f bits rest where smp: "sampler st = f # sampler st1"
    and h1: "history st1 = history st" and rm1: "result_matrix st1 = result_matrix st"
    and ce: "cycle_executions st1 = cycle_executions st + 1"
    and vt: "target_matrix c ! row ! col \<noteq> 0 \<Longrightarrow> v = (if CHR ''1'' \<in> set bits then 1 else 0)"
    and vf: "\<not> target_matrix c ! row ! col \<noteq> 0 \<Longrightarrow> v = (if hd bits = CHR ''1'' then - 1 else 0)"
    and th: "targets_hit st1 = targets_hit st + (if v = 1 then 1 else 0)"
    and cl: "clear_cells_detected st1 = clear_cells_detected st + (if v = - 1 then 1 else 0)"
    by (rule probe_cell_Returned) auto
  have con: "consistent c st" and sq: "square ?n (result_matrix st)"
    using ok by (simp_all add: run_ok_def consistent_def)
  have hist: "\<forall>e\<in>set (history st).
         consistent c (before e) \<and> \<not> finished c (before e) \<and>
         at_row e < ?n \<and> at_col e < ?n \<and> result_matrix (before e) ! at_row e ! at_col e = 0"
    using ok by (simp add: run_ok_def)
  have srt: "sorted_wrt (\<lambda>later earlier. absorbed ?n (result_matrix earlier) (result_matrix later)) (trace st)"
    using ok by (simp add: run_ok_def)
  have cnt: "map (\<lambda>e. cycle_executions (before e)) (rev (history st)) = map int [0..<length (history st)]"
    and cur: "cycle_executions st = int (length (history st))"
    and drp: "sampler st = drop (length (history st)) smp"
    using ok by (simp_all add: run_ok_def)
  have v: "v = 1 \<or> v = 0 \<or> v = - 1" and v1: "v = 1 \<Longrightarrow> target_matrix c ! row ! col \<noteq> 0"
    and v2: "v = - 1 \<Longrightarrow> target_matrix c ! row ! col = 0"
    using vt vf by (cases "target_matrix c ! row ! col \<noteq> 0"; simp split: if_splits)+
  have A: "consistent c st'"
    by (rule consistent_step[OF con r k u _ _ _ v v1 v2]) (simp_all add: st' rm1 th cl)
  have B: "\<forall>e\<in>set (history st').
         consistent c (before e) \<and> \<not> finished c (before e) \<and>
         at_row e < ?n \<and> at_col e < ?n \<and> result_matrix (before e) ! at_row e ! at_col e = 0"
    using hist con nf r k u by (simp add: st' h1)
  have tr: "trace st' = snapshot st' # trace st"
    by (simp add: trace_def st' h1)
  have step: "absorbed ?n (result_matrix st) (result_matrix st')"
    using absorbed_mat_set[OF sq r k u] by (simp add: st' rm1)
  have "\<forall>m\<in>set (trace st). absorbed ?n (result_matrix m) (result_matrix st)"
    using srt by (auto simp: trace_def absorbed_refl)
  then have "\<forall>m\<in>set (trace st). absorbed ?n (result_matrix m) (result_matrix (snapshot st'))"
    using step by (auto intro: absorbed_trans)
  then have C: "sorted_wrt (\<lambda>later earlier. absorbed ?n (result_matrix earlier) (result_matrix later)) (trace st')"
    using srt by (simp add: tr)
  have D: "map (\<lambda>e. cycle_executions (before e)) (rev (history st')) = map int [0..<length (history st')]"
    using cnt cur by (simp add: st' h1 snapshot_def)
  have E: "cycle_executions st' = int (length (history st'))"
    using cur ce by (simp add: st' h1)
  have ne: "drop (length (history st)) smp = f # sampler st1"
    using smp drp by simp
  then have lt: "length (history st) < length smp"
    by (cases "length (history st) < length smp") simp_all
  have "drop (Suc (length (history st))) smp = tl (drop (length (history st)) smp)"
    by (simp add: drop_Suc tl_drop)
  then have F: "sampler st' = drop (length (history st')) smp"
    using ne by (simp add: st' h1)
  have G: "length (history st') \<le> length smp"
    using lt by (simp add: st' h1)
  show ?thesis
    using A B C D E F G by (simp add: run_ok_def st' h1)
qed

lemma scan_cols_ok:
  assumes "run_ok c smp st" and "\<not> finished c st" and "row < grid_dim c"
    and "\<forall>k\<in>set cols. k < grid_dim c"
  shows "case scan_cols c row cols st of
           Returned st' \<Rightarrow> run_ok c smp st' \<and> length (history st) \<le> length (history st') \<and>
             (length (history st') = length (history st) \<longrightarrow>
                st' = st \<and> (\<forall>k\<in>set cols. result_matrix st ! row ! k \<noteq> 0))
         | Starved s \<Rightarrow> run_ok c smp s \<and> \<not> finished c s \<and> sampler s = []
         | Raised e \<Rightarrow> True"
  using assms
proof (induction cols arbitrary: st)
  case Nil
  then show ?case by simp
next
  case (Cons col cols)
  show ?case
  proof (cases "result_matrix st ! row ! col = 0")
    case False
    then show ?thesis
      using Cons.IH[of st] Cons.prems by (auto split: result.splits)
  next
    case True
    show ?thesis
    proof (cases "probe_at c row col st")
      case (Returned st')
      have ok': "run_ok c smp st'" and len: "length (history st') = Suc (length (history st))"
        using probe_at_Returned[OF Cons.prems(1,2,3) _ True Returned] Cons.prems(4) by simp_all
      show ?thesis
      proof (cases "finished c st'")
        case fin: True
        then show ?thesis using True Returned ok' len by simp
      next
        case nf: False
        show ?thesis
          using Cons.IH[OF ok' nf Cons.prems(3)] Cons.prems(4) True Returned nf len
          by (auto split: result.splits)
      qed
    next
      case (Starved s)
      then show ?thesis
        using True probe_at_Starved[OF Starved] Cons.prems by simp
    next
      case (Raised e)
      then show ?thesis using True by simp
    qed
  qed
qed

lemma scan_rows_ok:
  assumes "run_ok c smp st" and "\<forall>r\<in>set rows. r < grid_dim c"
  shows "case scan_rows c rows st of
           Returned st' \<Rightarrow> run_ok c smp st' \<and> length (history st) \<le> length (history st') \<and>
             (length (history st') = length (history st) \<longrightarrow>
                st' = st \<and>
                (finished c st \<or> (\<forall>r\<in>set rows. \<forall>k<grid_dim c. result_matrix st ! r ! k \<noteq> 0)))
         | Starved s \<Rightarrow> run_ok c smp s \<and> \<not> finished c s \<and> sampler s = []
         | Raised e \<Rightarrow> True"
  using assms
proof (induction rows arbitrary: st)
  case Nil
  then show ?case by simp
next
  case (Cons row rows)
  show ?case
  proof (cases "finished c st")
    case True
    then show ?thesis using Cons.prems by simp
  next
    case nf: False
    have row: "row < grid_dim c" using Cons.prems(2) by simp
    have cols: "\<forall>k\<in>set [0..<grid_dim c]. k < grid_dim c" by simp
    note inner = scan_cols_ok[OF Cons.prems(1) nf row cols]
    show ?thesis
    proof (cases "scan_cols c row [0..<grid_dim c] st")
      case (Returned st')
      have ok': "run_ok c smp st'" and le: "length (history st) \<le> length (history st')"
        and same: "length (history st') = length (history st) \<Longrightarrow>
                st' = st \<and> (\<forall>k<grid_dim c. result_matrix st ! row ! k \<noteq> 0)"
        using inner Returned by simp_all
      have rest: "\<forall>r\<in>set rows. r < grid_dim c" using Cons.prems(2) by simp
      note outer = Cons.IH[OF ok' rest]
      show ?thesis
      proof (cases "scan_rows c rows st'")
        case R2: (Returned st'')
        then show ?thesis
          using outer nf Returned le same by auto
      next
        case (Starved s)
        then show ?thesis using outer nf Returned by simp
      next
        case (Raised e)
        then show ?thesis using nf Returned by simp
      qed
    next
      case (Starved s)
      then show ?thesis using inner nf by simp
    next
      case (Raised e)
      then show ?thesis using nf by simp
    qed
  qed
qed

lemma while_condition: 
  "(clear_cells_detected st + target_count c < cell_count c) = (\<not> finished c st)"
  by (auto simp: finished_def)

lemma scan_loop_ok:
  assumes "scan_loop c st = Some res" and "run_ok c smp st"
  shows "case res of
           Returned st' \<Rightarrow> run_ok c smp st' \<and> finished c st'
         | Starved s \<Rightarrow> run_ok c smp s \<and> \<not> finished c s \<and> sampler s = []
         | Raised e \<Rightarrow> True"
proof -
  let ?P = "\<lambda>c st res. run_ok c smp st \<longrightarrow> (case res of
           Returned st' \<Rightarrow> run_ok c smp st' \<and> finished c st'
         | Starved s \<Rightarrow> run_ok c smp s \<and> \<not> finished c s \<and> sampler s = []
         | Raised e \<Rightarrow> True)"
  have "?P c st res"
  proof (rule scan_loop.raw_induct[where P = ?P, OF _ assms(1)])
    fix loop c st res
    assume IH: "\<And>c' st' y. loop c' st' = Some y \<Longrightarrow> ?P c' st' y"
      and body: "(if clear_cells_detected st + target_count c < cell_count c
          then case scan_rows c [0..<grid_dim c] st of
                 Returned st' \<Rightarrow> loop c st'
               | Starved s \<Rightarrow> Some (Starved s)
               | Raised e \<Rightarrow> Some (Raised e)
          else Some (Returned st)) = Some res"
    show "?P c st res"
    proof
      assume ok: "run_ok c smp st"
      show "case res of
           Returned st' \<Rightarrow> run_ok c smp st' \<and> finished c st'
         | Starved s \<Rightarrow> run_ok c smp s \<and> \<not> finished c s \<and> sampler s = []
         | Raised e \<Rightarrow> True"
      proof (cases "finished c st")
        case True
        then show ?thesis using body ok by (auto simp: while_condition)
      next
        case False
        have rows: "\<forall>r\<in>set [0..<grid_dim c]. r < grid_dim c" by simp
        note sweep = scan_rows_ok[OF ok rows]
        show ?thesis
        proof (cases "scan_rows c [0..<grid_dim c] st")
          case (Returned st')
          then have "loop c st' = Some res" using body False by (simp add: while_condition)
          moreover have "run_ok c smp st'" using sweep Returned by simp
          ultimately show ?thesis using IH by blast
        next
          case (Starved s)
          have "res = Starved s" using body False Starved by (simp add: while_condition)
          moreover have "run_ok c smp s \<and> \<not> finished c s \<and> sampler s = []"
            using sweep Starved by simp
          ultimately show ?thesis by simp
        next
          case (Raised e)
          have "res = Raised e" using body False Raised by (simp add: while_condition)
          then show ?thesis by simp
        qed
      qed
    qed
  qed
  then show ?thesis using assms(2) by simp
qed

text \<open>The cells of a well-formed target matrix.\<close>

lemma wf_config_entries:
  assumes "wf_config c" "r < grid_dim c" "k < grid_dim c"
  shows "target_matrix c ! r ! k = 0 \<or> target_matrix c ! r ! k = 1"
  using assms by (auto simp: wf_config_def square_def list_all_length)

lemma wf_config_clear_cells:
  assumes "wf_config c"
  shows "int (card (cells (grid_dim c) (target_matrix c) 0)) = cell_count c - target_count c"
proof -
  let ?n = "grid_dim c" and ?tm = "target_matrix c"
  have sq: "square ?n ?tm" using assms by (simp add: wf_config_def)
  have "cells ?n ?tm 0 \<union> cells ?n ?tm 1 = {..<?n} \<times> {..<?n}"
    using wf_config_entries[OF assms] by (auto simp: cells_def)
  moreover have "cells ?n ?tm 0 \<inter> cells ?n ?tm 1 = {}"
    by (auto simp: cells_def)
  ultimately have "card (cells ?n ?tm 0) + card (cells ?n ?tm 1) = ?n * ?n"
    using card_Un_disjoint[OF finite_cells finite_cells, of ?n ?tm 0 ?n ?tm 1] by simp
  moreover have "int (card (cells ?n ?tm 1)) = target_count c"
    using assms mat_count_cells[OF sq, of 1] by (simp add: wf_config_def)
  ultimately show ?thesis
    by (simp add: cell_count_def power2_eq_square flip: of_nat_mult)
qed

lemma clear_cells_subset:
  assumes "consistent c m"
  shows "cells (grid_dim c) (result_matrix m) (- 1) \<subseteq> cells (grid_dim c) (target_matrix c) 0"
  using assms by (auto simp: cells_def consistent_def)

lemma clear_bound:
  assumes "wf_config c" and "consistent c m"
  shows "clear_cells_detected m \<le> cell_count c - target_count c"
proof -
  have "card (cells (grid_dim c) (result_matrix m) (- 1)) \<le> card (cells (grid_dim c) (target_matrix c) 0)"
    by (rule card_mono[OF finite_cells clear_cells_subset[OF assms(2)]])
  moreover have "clear_cells_detected m = int (card (cells (grid_dim c) (result_matrix m) (- 1)))"
    using assms(2) by (simp add: consistent_def mat_count_cells)
  ultimately show ?thesis using wf_config_clear_cells[OF assms(1)] by simp
qed

lemma unknown_cell_exists:
  assumes wf: "wf_config c" and con: "consistent c m" and nf: "\<not> finished c m"
  shows "\<exists>r<grid_dim c. \<exists>k<grid_dim c. result_matrix m ! r ! k = 0 \<and> target_matrix c ! r ! k = 0"
proof -
  let ?A = "cells (grid_dim c) (result_matrix m) (- 1)"
  let ?B = "cells (grid_dim c) (target_matrix c) 0"
  have "clear_cells_detected m = int (card ?A)"
    using con by (simp add: consistent_def mat_count_cells)
  then have "card ?A < card ?B"
    using nf wf_config_clear_cells[OF wf] by (simp add: finished_def)
  then have "?A \<noteq> ?B" by auto
  then obtain r k where rk: "(r, k) \<in> ?B" "(r, k) \<notin> ?A"
    using clear_cells_subset[OF con] by auto
  then have "r < grid_dim c" "k < grid_dim c" "target_matrix c ! r ! k = 0"
    "result_matrix m ! r ! k \<noteq> - 1"
    by (auto simp: cells_def)
  moreover from this have "result_matrix m ! r ! k = 0"
    using con by (auto simp: consistent_def)
  ultimately show ?thesis by blast
qed

text \<open>With well-formed input the scan never sweeps for ever without probing.\<close>

lemma scan_loop_total:
  assumes wf: "wf_config c" and ok: "run_ok c smp st"
  shows "\<exists>res. scan_loop c st = Some res"
  using ok
proof (induction "length (sampler st)" arbitrary: st rule: less_induct)
  case less
  note ok = less.prems
  show ?case
  proof (cases "finished c st")
    case True
    then show ?thesis by (subst scan_loop.simps) (simp add: while_condition)
  next
    case nf: False
    have rows: "\<forall>r\<in>set [0..<grid_dim c]. r < grid_dim c" by simp
    note sweep = scan_rows_ok[OF ok rows]
    show ?thesis
    proof (cases "scan_rows c [0..<grid_dim c] st")
      case (Returned st')
      have ok': "run_ok c smp st'" and le: "length (history st) \<le> length (history st')"
        and same: "length (history st') = length (history st) \<Longrightarrow>
           \<forall>r<grid_dim c. \<forall>k<grid_dim c. result_matrix st ! r ! k \<noteq> 0"
        using sweep Returned nf by simp_all
      have con: "consistent c st" using ok by (simp add: run_ok_def)
      have "length (history st') \<noteq> length (history st)"
        using same unknown_cell_exists[OF wf con nf] by blast
      then have lt: "length (history st) < length (history st')" using le by simp
      have "sampler st = drop (length (history st)) smp"
        "sampler st' = drop (length (history st')) smp" "length (history st') \<le> length smp"
        using ok ok' by (simp_all add: run_ok_def)
      then have "length (sampler st') < length (sampler st)" using lt by simp
      then obtain res where "scan_loop c st' = Some res"
        using less.hyps[OF _ ok'] by blast
      then show ?thesis
        using Returned nf by (subst scan_loop.simps) (simp add: while_condition)
    next
      case (Starved s)
      then show ?thesis using nf by (subst scan_loop.simps) (simp add: while_condition)
    next
      case (Raised e)
      then show ?thesis using nf by (subst scan_loop.simps) (simp add: while_condition)
    qed
  qed
qed

lemma consistent_partition:
  assumes "consistent c m"
  shows "mat_count (result_matrix m) (- 1) + mat_count (result_matrix m) 1 +
           mat_count (result_matrix m) 0 = cell_count c"
proof -
  let ?n = "grid_dim c" and ?rm = "result_matrix m"
  have sq: "square ?n ?rm" using assms by (simp add: consistent_def)
  have ent: "\<And>r k. r < ?n \<Longrightarrow> k < ?n \<Longrightarrow> ?rm ! r ! k = 1 \<or> ?rm ! r ! k = 0 \<or> ?rm ! r ! k = - 1"
    using assms by (simp add: consistent_def)
  have "cells ?n ?rm (- 1) \<union> cells ?n ?rm 1 \<union> cells ?n ?rm 0 = {..<?n} \<times> {..<?n}"
    using ent by (auto simp: cells_def)
  moreover have "cells ?n ?rm (- 1) \<inter> cells ?n ?rm 1 = {}"
    "(cells ?n ?rm (- 1) \<union> cells ?n ?rm 1) \<inter> cells ?n ?rm 0 = {}"
    by (auto simp: cells_def)
  ultimately have "card (cells ?n ?rm (- 1)) + card (cells ?n ?rm 1) + card (cells ?n ?rm 0) = ?n * ?n"
    using card_Un_disjoint[of "cells ?n ?rm (- 1)" "cells ?n ?rm 1"]
      card_Un_disjoint[of "cells ?n ?rm (- 1) \<union> cells ?n ?rm 1" "cells ?n ?rm 0"]
    by (simp add: finite_cells)
  then have "int (card (cells ?n ?rm (- 1))) + int (card (cells ?n ?rm 1)) + int (card (cells ?n ?rm 0))
      = int ?n * int ?n"
    by (simp flip: of_nat_add of_nat_mult)
  then show ?thesis
    by (simp add: mat_count_cells[OF sq] cell_count_def power2_eq_square)
qed

section \<open>Placement\<close>





section \<open>Runs from the initial state\<close>

lemma run_from_init:
  assumes "scan_loop c (init_state c smp) = Some res" and "res = Returned st \<or> res = Starved st"
  shows "run_ok c smp st"
  using scan_loop_ok[OF assms(1) run_ok_init] assms(2) by auto

lemma trace_consistent:
  assumes "run_ok c smp st" and "m \<in> set (trace st)"
  shows "consistent c m"
  using assms by (auto simp: run_ok_def trace_def)

lemma history_unfinished:
  assumes "run_ok c smp st" and "e \<in> set (history st)"
  shows "\<not> finished c (before e)"
  using assms by (simp add: run_ok_def)

section \<open>The example runs\<close>

lemma comp_clbits: "num_clbits comp_target_qc = 30" "num_clbits comp_clear_qc = 1"
  by (simp_all add: comp_target_qc_def comp_clear_qc_def target_qc_clbits clear_qc_clbits
      cycle_count_def)

lemmas run_simps = scan_rows.simps scan_cols.simps probe_at_def probe_cell_def exec_quantum_def
  finished_def cell_count_def mat_set_def snapshot_def init_state_def zeros_def demo_config_def
  excited_def ground_def upt_conv_Cons comp_clbits

lemma wf_demo_config: "wf_config demo_config"
  by (simp add: wf_config_def demo_config_def square_def mat_count_def)

lemma demo_returns:
  "scan_loop demo_config (init_state demo_config [excited]) = Some (Returned demo_final)"
  apply (subst scan_loop.simps)
  apply (simp add: run_simps numeral_3_eq_3)
  apply (subst scan_loop.simps)
  apply (simp add: run_simps demo_final_def)
  done

lemma demo_waits:
  "scan_loop demo_config (init_state demo_config [ground, excited]) = Some (Starved demo_pending)"
  apply (subst scan_loop.simps)
  apply (simp add: run_simps numeral_3_eq_3 demo_pending_def)
  done


lemma wf_demo_config2: "wf_config demo_config2"
  by (simp add: wf_config_def demo_config2_def square_def mat_count_def)

lemma demo2_returns:
  "scan_loop demo_config2 (init_state demo_config2 [excited, excited]) = Some (Returned demo_final2)"
  apply (subst scan_loop.simps)
  apply (simp add: run_simps demo_config2_def numeral_3_eq_3)
  apply (subst scan_loop.simps)
  apply (simp add: run_simps demo_config2_def demo_final2_def)
  done

lemma trace_demo_final2:
  "trace demo_final2 =
     [\<lparr>result_matrix = [[1, - 1, 0], [0, 0, 0], [0, 0, 0]], targets_hit = 1,
        clear_cells_detected = 1, cycle_executions = 2\<rparr>,
      \<lparr>result_matrix = [[1, 0, 0], [0, 0, 0], [0, 0, 0]], targets_hit = 1,
        clear_cells_detected = 0, cycle_executions = 1\<rparr>,
      \<lparr>result_matrix = [[0, 0, 0], [0, 0, 0], [0, 0, 0]], targets_hit = 0,
        clear_cells_detected = 0, cycle_executions = 0\<rparr>]"
  by (simp add: trace_def demo_final2_def snapshot_def)

section \<open>One-shot answers never raise\<close>

lemma one_shot_target: "one_shot comp_target_qc mem \<Longrightarrow> \<exists>bits. mem = [bits]"
  by (auto simp: one_shot_def split: list.splits)

lemma one_shot_clear: "one_shot comp_clear_qc mem \<Longrightarrow> \<exists>b. mem = [[b]]"
  by (auto simp: one_shot_def comp_clear_qc_def clear_qc_clbits length_Suc_conv split: list.splits)

lemma probe_cell_no_raise:
  assumes "sampler_ok (sampler st)"
  shows "probe_cell has_target st \<noteq> Raised e"
proof (cases "sampler st")
  case Nil
  then show ?thesis by (simp add: probe_cell_def exec_quantum_def)
next
  case (Cons f fs)
  then have t: "one_shot comp_target_qc (f comp_target_qc)"
    and k: "one_shot comp_clear_qc (f comp_clear_qc)"
    using assms by (simp_all add: sampler_ok_def)
  show ?thesis
  proof (cases has_target)
    case True
    obtain bits where "f comp_target_qc = bits # []" using one_shot_target[OF t] by blast
    then show ?thesis using True by (simp add: probe_cell_present[OF Cons])
  next
    case False
    obtain b where "f comp_clear_qc = (b # []) # []" using one_shot_clear[OF k] by blast
    then show ?thesis using False by (simp add: probe_cell_absent[OF Cons])
  qed
qed

lemma probe_at_no_raise:
  assumes "sampler_ok (sampler st)"
  shows "probe_at c row col st \<noteq> Raised e"
  using probe_cell_no_raise[OF assms]
  by (auto simp: probe_at_def split: result.splits)

lemma probe_at_sampler_ok:
  assumes "sampler_ok (sampler st)" and "probe_at c row col st = Returned st'"
  shows "sampler_ok (sampler st')"
proof -
  obtain v st1 where pc: "probe_cell (target_matrix c ! row ! col \<noteq> 0) st = Returned (v, st1)"
    and s': "sampler st' = sampler st1"
    using assms(2) by (auto simp: probe_at_def split: result.splits)
  from pc obtain f where "sampler st = f # sampler st1"
    by (rule probe_cell_Returned)
  then show ?thesis using assms(1) s' by (simp add: sampler_ok_def)
qed

lemma scan_cols_no_raise:
  assumes "sampler_ok (sampler st)"
  shows "scan_cols c row cols st \<noteq> Raised e \<and>
         (\<forall>st'. scan_cols c row cols st = Returned st' \<longrightarrow> sampler_ok (sampler st'))"
  using assms
proof (induction cols arbitrary: st)
  case Nil
  then show ?case by simp
next
  case (Cons col cols)
  show ?case
  proof (cases "result_matrix st ! row ! col = 0")
    case False
    then show ?thesis using Cons.IH[OF Cons.prems] by simp
  next
    case True
    show ?thesis
    proof (cases "probe_at c row col st")
      case (Returned st1)
      have ok1: "sampler_ok (sampler st1)"
        by (rule probe_at_sampler_ok[OF Cons.prems Returned])
      show ?thesis
        using True Returned ok1 Cons.IH[OF ok1] by simp
    next
      case (Starved s)
      then show ?thesis using True by simp
    next
      case (Raised e')
      then show ?thesis using probe_at_no_raise[OF Cons.prems] by simp
    qed
  qed
qed

lemma scan_rows_no_raise:
  assumes "sampler_ok (sampler st)"
  shows "scan_rows c rows st \<noteq> Raised e \<and>
         (\<forall>st'. scan_rows c rows st = Returned st' \<longrightarrow> sampler_ok (sampler st'))"
  using assms
proof (induction rows arbitrary: st)
  case Nil
  then show ?case by simp
next
  case (Cons row rows)
  show ?case
  proof (cases "finished c st")
    case True
    then show ?thesis using Cons.prems by simp
  next
    case nf: False
    note inner = scan_cols_no_raise[OF Cons.prems, of c row "[0..<grid_dim c]"]
    show ?thesis
    proof (cases "scan_cols c row [0..<grid_dim c] st")
      case (Returned st1)
      then have ok1: "sampler_ok (sampler st1)" using inner by simp
      show ?thesis using nf Returned Cons.IH[OF ok1] by simp
    next
      case (Starved s)
      then show ?thesis using nf by simp
    next
      case (Raised e')
      then show ?thesis using inner by simp
    qed
  qed
qed

lemma scan_loop_no_raise:
  assumes "scan_loop c st = Some res" and "sampler_ok (sampler st)"
  shows "res \<noteq> Raised e"
proof -
  let ?P = "\<lambda>c st res. sampler_ok (sampler st) \<longrightarrow> res \<noteq> Raised e"
  have "?P c st res"
  proof (rule scan_loop.raw_induct[where P = ?P, OF _ assms(1)])
    fix loop c st res
    assume IH: "\<And>c' st' y. loop c' st' = Some y \<Longrightarrow> ?P c' st' y"
      and body: "(if clear_cells_detected st + target_count c < cell_count c
          then case scan_rows c [0..<grid_dim c] st of
                 Returned st' \<Rightarrow> loop c st'
               | Starved s \<Rightarrow> Some (Starved s)
               | Raised e \<Rightarrow> Some (Raised e)
          else Some (Returned st)) = Some res"
    show "?P c st res"
    proof
      assume ok: "sampler_ok (sampler st)"
      note sweep = scan_rows_no_raise[OF ok, of c "[0..<grid_dim c]"]
      show "res \<noteq> Raised e"
      proof (cases "finished c st")
        case True
        then have "res = Returned st" using body by (simp add: while_condition)
        then show ?thesis by simp
      next
        case False
        show ?thesis
        proof (cases "scan_rows c [0..<grid_dim c] st")
          case (Returned st1)
          then have "loop c st1 = Some res" using body False by (simp add: while_condition)
          moreover have "sampler_ok (sampler st1)" using sweep Returned by simp
          ultimately show ?thesis using IH by blast
        next
          case (Starved s)
          then have "res = Starved s" using body False by (simp add: while_condition)
          then show ?thesis by simp
        next
          case (Raised e')
          then show ?thesis using sweep by simp
        qed
      qed
    qed
  qed
  then show ?thesis using assms(2) by simp
qed

lemma sampler_ok_excited: "sampler_ok [excited, excited]"
  by (simp add: sampler_ok_def one_shot_def excited_def comp_clbits list_all_iff)

section \<open>Claims about one probe\<close>

text \<open>
  Claim C1. A probe of a cell with a target hands the sampler the target circuit, which
  reads the qubit after each of its \<open>cycle_count\<close> rotations into \<open>cycle_count\<close> classical
  bits. When the sampler answers with the bit string \<open>bits\<close>, the probe returns \<open>1\<close> (Hit)
  if some character of \<open>bits\<close> is \<open>1\<close> and \<open>0\<close> (Undetermined) otherwise; a one-shot answer
  has exactly \<open>cycle_count\<close> bits; and no probe with a target ever returns \<open>-1\<close> (Clear).
\<close>

theorem probe_cell_target_present:
  assumes "sampler st = f # fs" and "f comp_target_qc = bits # rest"
  shows "(\<exists>st'. probe_cell True st = Returned (if CHR ''1'' \<in> set bits then 1 else 0, st')) \<and>
         (\<forall>s v s'. probe_cell True s = Returned (v, s') \<longrightarrow> v \<noteq> - 1) \<and>
         instrs comp_target_qc =
           concat (map (\<lambda>i. [Ry (2 * rotation_angle) 0, Measure 0 i]) [0..<cycle_count]) \<and>
         num_clbits comp_target_qc = cycle_count \<and>
         (one_shot comp_target_qc (f comp_target_qc) \<longrightarrow> length bits = cycle_count \<and> rest = [])"
proof -
  have "\<exists>st'. probe_cell True st = Returned (if CHR ''1'' \<in> set bits then 1 else 0, st')"
    by (simp add: probe_cell_present[OF assms])
  moreover have "\<forall>s v s'. probe_cell True s = Returned (v, s') \<longrightarrow> v \<noteq> - 1"
    by (auto simp: probe_cell_def split: option.splits list.splits if_splits)
  moreover have "one_shot comp_target_qc (f comp_target_qc) \<longrightarrow> length bits = cycle_count \<and> rest = []"
    using assms(2)
    by (auto simp: one_shot_def comp_target_qc_def target_qc_clbits split: list.splits)
  ultimately show ?thesis
    by (simp add: comp_target_qc_def target_qc_instrs target_qc_clbits)
qed

theorem probe_cell_target_present_witness:
  "sampler (init_state demo_config [excited]) = excited # [] \<and>
   excited comp_target_qc = replicate 30 CHR ''1'' # [] \<and>
   one_shot comp_target_qc (excited comp_target_qc) \<and>
   (\<exists>st'. probe_cell True (init_state demo_config [excited]) = Returned (1, st')) \<and>
   length (replicate 30 CHR ''1'') = cycle_count"
proof -
  have a: "sampler (init_state demo_config [excited]) = excited # []"
    by (simp add: init_state_def)
  have b: "excited comp_target_qc = replicate 30 CHR ''1'' # []"
    by (simp add: excited_def comp_clbits)
  have c: "one_shot comp_target_qc (excited comp_target_qc)"
    by (simp add: one_shot_def excited_def comp_clbits list_all_iff)
  show ?thesis
    using probe_cell_target_present[OF a b] a b c by simp
qed

text \<open>
  Claim C2. A probe of a cell without a target hands the sampler the clear circuit:
  \<open>cycle_count\<close> rotations by the same parameter with no read between them (together a
  rotation parameter of \<open>cycle_count * (2 * rotation_angle)\<close>; a rotation \<^verbatim>\<open>ry\<close> with
  parameter \<open>2 * a\<close> turns the state by \<open>a\<close>, so the state is turned by
  \<open>cycle_count * rotation_angle\<close>), then one read into the only classical bit. When the first character of the sampler's bit string is \<open>b\<close>, the probe
  returns \<open>-1\<close> (Clear) if \<open>b\<close> is \<open>1\<close> and \<open>0\<close> (Undetermined) otherwise; a one-shot
  answer is that one bit; and no probe without a target ever returns \<open>1\<close> (Hit).
\<close>

theorem probe_cell_target_absent:
  assumes "sampler st = f # fs" and "f comp_clear_qc = (b # bs) # rest"
  shows "(\<exists>st'. probe_cell False st = Returned (if b = CHR ''1'' then - 1 else 0, st')) \<and>
         (\<forall>s v s'. probe_cell False s = Returned (v, s') \<longrightarrow> v \<noteq> 1) \<and>
         instrs comp_clear_qc = replicate cycle_count (Ry (2 * rotation_angle) 0) @ [Measure 0 0] \<and>
         net_rotation comp_clear_qc = real cycle_count * (2 * rotation_angle) \<and>
         filter is_read (instrs comp_clear_qc) = [Measure 0 0] \<and>
         num_clbits comp_clear_qc = 1 \<and>
         (one_shot comp_clear_qc (f comp_clear_qc) \<longrightarrow> bs = [] \<and> rest = [])"
proof -
  have "\<exists>st'. probe_cell False st = Returned (if b = CHR ''1'' then - 1 else 0, st')"
    by (simp add: probe_cell_absent[OF assms])
  moreover have "\<forall>s v s'. probe_cell False s = Returned (v, s') \<longrightarrow> v \<noteq> 1"
    by (auto simp: probe_cell_def split: option.splits list.splits if_splits)
  moreover have "one_shot comp_clear_qc (f comp_clear_qc) \<longrightarrow> bs = [] \<and> rest = []"
    using assms(2)
    by (auto simp: one_shot_def comp_clear_qc_def clear_qc_clbits split: list.splits)
  ultimately show ?thesis
    by (simp add: comp_clear_qc_def clear_qc_instrs clear_qc_clbits clear_qc_net_rotation)
qed

theorem probe_cell_target_absent_witness:
  "sampler (init_state demo_config [excited]) = excited # [] \<and>
   excited comp_clear_qc = (CHR ''1'' # []) # [] \<and>
   one_shot comp_clear_qc (excited comp_clear_qc) \<and>
   (\<exists>st'. probe_cell False (init_state demo_config [excited]) = Returned (- 1, st')) \<and>
   net_rotation comp_clear_qc = 6 * pi / 31"
proof -
  have a: "sampler (init_state demo_config [excited]) = excited # []"
    by (simp add: init_state_def)
  have b: "excited comp_clear_qc = (CHR ''1'' # []) # []"
    by (simp add: excited_def comp_clbits)
  have c: "one_shot comp_clear_qc (excited comp_clear_qc)"
    by (simp add: one_shot_def excited_def comp_clbits)
  show ?thesis
    using probe_cell_target_absent[OF a b] a b c
    by (simp add: cycle_count_def rotation_angle_def)
qed

section \<open>Claims about the scan\<close>

text \<open>
  Claim C3. On a well-formed board the scan always gives a result, whatever the sampler
  answers. It returns only in a state where
  \<open>clear_cells_detected + target_count \<ge> cell_count\<close>; every probe it made started in a
  state where that was false, so a probe is never made once it holds, also not in the
  middle of a sweep; and when the recorded answers run out while it is false, the scan is
  asking for the next probe, with every recorded answer used by a probe. When every
  answer of the sampler is one shot of the circuit it was handed, no exception is raised,
  so these are the only two results: the scan goes on probing for as long as the condition
  is false. A row loop or a scan entered in a finished state returns at once.
\<close>

theorem scan_stops_exactly_when_finished:
  assumes "wf_config c"
  shows "\<exists>res. scan_loop c (init_state c smp) = Some res \<and>
     (\<forall>st. res = Returned st \<longrightarrow>
        finished c st \<and> (\<forall>e\<in>set (history st). \<not> finished c (before e))) \<and>
     (\<forall>st. res = Starved st \<longrightarrow>
        \<not> finished c st \<and> sampler st = [] \<and> length (history st) = length smp \<and>
        (\<forall>e\<in>set (history st). \<not> finished c (before e))) \<and>
     (sampler_ok smp \<longrightarrow> (\<forall>e. res \<noteq> Raised e)) \<and>
     (\<forall>st rows. finished c st \<longrightarrow>
        scan_rows c rows st = Returned st \<and> scan_loop c st = Some (Returned st))"
proof -
  obtain res where res: "scan_loop c (init_state c smp) = Some res"
    using scan_loop_total[OF assms run_ok_init] by blast
  note post = scan_loop_ok[OF res run_ok_init]
  have R: "\<forall>st. res = Returned st \<longrightarrow>
        finished c st \<and> (\<forall>e\<in>set (history st). \<not> finished c (before e))"
    using post by (auto simp: run_ok_def)
  have S: "\<forall>st. res = Starved st \<longrightarrow>
        \<not> finished c st \<and> sampler st = [] \<and> length (history st) = length smp \<and>
        (\<forall>e\<in>set (history st). \<not> finished c (before e))"
  proof (intro allI impI)
    fix st assume "res = Starved st"
    then have ok: "run_ok c smp st" and nf: "\<not> finished c st" and em: "sampler st = []"
      using post by simp_all
    have "drop (length (history st)) smp = []" "length (history st) \<le> length smp"
      using ok em by (simp_all add: run_ok_def)
    then have "length (history st) = length smp" by simp
    then show "\<not> finished c st \<and> sampler st = [] \<and> length (history st) = length smp \<and>
        (\<forall>e\<in>set (history st). \<not> finished c (before e))"
      using ok nf em by (simp add: run_ok_def)
  qed
  have F: "\<forall>st rows. finished c st \<longrightarrow>
        scan_rows c rows st = Returned st \<and> scan_loop c st = Some (Returned st)"
  proof (intro allI impI conjI)
    fix st :: state and rows assume fin: "finished c st"
    show "scan_rows c rows st = Returned st" using fin by (cases rows) simp_all
    show "scan_loop c st = Some (Returned st)"
      using fin by (subst scan_loop.simps) (simp add: while_condition)
  qed
  have N: "sampler_ok smp \<longrightarrow> (\<forall>e. res \<noteq> Raised e)"
    using scan_loop_no_raise[OF res] by (simp add: init_state_def)
  show ?thesis using res R S N F by blast
qed

theorem scan_stops_exactly_when_finished_witness:
  "wf_config demo_config2 \<and> sampler_ok [excited, excited] \<and>
   scan_loop demo_config2 (init_state demo_config2 [excited, excited]) = Some (Returned demo_final2) \<and>
   finished demo_config2 demo_final2 \<and>
   list_all (\<lambda>e. \<not> finished demo_config2 (before e)) (history demo_final2)"
proof -
  obtain res where res: "scan_loop demo_config2 (init_state demo_config2 [excited, excited]) = Some res"
    and R: "\<forall>st. res = Returned st \<longrightarrow>
        finished demo_config2 st \<and> (\<forall>e\<in>set (history st). \<not> finished demo_config2 (before e))"
    using scan_stops_exactly_when_finished[OF wf_demo_config2, of "[excited, excited]"] by blast
  have "res = Returned demo_final2" using res demo2_returns by simp
  then show ?thesis
    using R wf_demo_config2 demo2_returns sampler_ok_excited by (simp add: list_all_iff)
qed

text \<open>
  Claim C4. At every observation point of a run on a well-formed board (the start, and
  after every probe), \<open>clear_cells_detected + targets_hit\<close> plus the number of \<open>0\<close> entries
  of the result matrix is \<open>cell_count\<close>, and \<open>clear_cells_detected\<close> is at most
  \<open>cell_count - target_count\<close>.
\<close>

theorem counters_and_unknown_cells:
  assumes "wf_config c" and "scan_loop c (init_state c smp) = Some res"
    and "res = Returned st \<or> res = Starved st"
  shows "\<forall>m\<in>set (trace st).
           clear_cells_detected m + targets_hit m + mat_count (result_matrix m) 0 = cell_count c \<and>
           clear_cells_detected m \<le> cell_count c - target_count c"
proof
  fix m assume "m \<in> set (trace st)"
  then have con: "consistent c m"
    using trace_consistent[OF run_from_init[OF assms(2,3)]] by simp
  have "clear_cells_detected m + targets_hit m + mat_count (result_matrix m) 0 = cell_count c"
    using consistent_partition[OF con] con by (simp add: consistent_def)
  then show "clear_cells_detected m + targets_hit m + mat_count (result_matrix m) 0 = cell_count c \<and>
           clear_cells_detected m \<le> cell_count c - target_count c"
    using clear_bound[OF assms(1) con] by simp
qed

theorem counters_and_unknown_cells_witness:
  "wf_config demo_config2 \<and>
   scan_loop demo_config2 (init_state demo_config2 [excited, excited]) = Some (Returned demo_final2) \<and>
   list_all (\<lambda>m.
      clear_cells_detected m + targets_hit m + mat_count (result_matrix m) 0 = 9 \<and>
      clear_cells_detected m \<le> 9 - 8) (trace demo_final2) \<and>
   length (trace demo_final2) = 3"
  using counters_and_unknown_cells[OF wf_demo_config2 demo2_returns, of demo_final2]
    wf_demo_config2 demo2_returns
  by (simp add: cell_count_def demo_config2_def trace_demo_final2)

text \<open>
  Claim C5. At every observation point of a run on a well-formed board, for every
  sequence of sampler answers, a cell whose result entry is \<open>1\<close> (Hit) is a target and a
  cell whose result entry is \<open>-1\<close> (Clear) is not.
\<close>

theorem no_false_classification:
  assumes "wf_config c" and "scan_loop c (init_state c smp) = Some res"
    and "res = Returned st \<or> res = Starved st"
  shows "\<forall>m\<in>set (trace st). \<forall>r<grid_dim c. \<forall>k<grid_dim c.
           (result_matrix m ! r ! k = 1 \<longrightarrow> target_matrix c ! r ! k \<noteq> 0) \<and>
           (result_matrix m ! r ! k = - 1 \<longrightarrow> target_matrix c ! r ! k = 0)"
proof
  fix m assume "m \<in> set (trace st)"
  then have "consistent c m"
    using trace_consistent[OF run_from_init[OF assms(2,3)]] by simp
  then show "\<forall>r<grid_dim c. \<forall>k<grid_dim c.
           (result_matrix m ! r ! k = 1 \<longrightarrow> target_matrix c ! r ! k \<noteq> 0) \<and>
           (result_matrix m ! r ! k = - 1 \<longrightarrow> target_matrix c ! r ! k = 0)"
    by (simp add: consistent_def)
qed

theorem no_false_classification_witness:
  "wf_config demo_config2 \<and>
   scan_loop demo_config2 (init_state demo_config2 [excited, excited]) = Some (Returned demo_final2) \<and>
   result_matrix demo_final2 ! 0 ! 0 = 1 \<and> target_matrix demo_config2 ! 0 ! 0 \<noteq> 0 \<and>
   result_matrix demo_final2 ! 0 ! 1 = - 1 \<and> target_matrix demo_config2 ! 0 ! 1 = 0"
proof -
  have now: "snapshot demo_final2 \<in> set (trace demo_final2)"
    by (simp add: trace_def)
  have g: "0 < grid_dim demo_config2" "1 < grid_dim demo_config2"
    by (simp_all add: demo_config2_def)
  have all: "\<forall>r<grid_dim demo_config2. \<forall>k<grid_dim demo_config2.
       (result_matrix (snapshot demo_final2) ! r ! k = 1 \<longrightarrow> target_matrix demo_config2 ! r ! k \<noteq> 0) \<and>
       (result_matrix (snapshot demo_final2) ! r ! k = - 1 \<longrightarrow> target_matrix demo_config2 ! r ! k = 0)"
    using no_false_classification[OF wf_demo_config2 demo2_returns, of demo_final2] now by blast
  have hit: "result_matrix demo_final2 ! 0 ! 0 = 1" and clr: "result_matrix demo_final2 ! 0 ! 1 = - 1"
    by (simp_all add: demo_final2_def)
  have "target_matrix demo_config2 ! 0 ! 0 \<noteq> 0" "target_matrix demo_config2 ! 0 ! 1 = 0"
    using all g hit clr by auto
  then show ?thesis
    using wf_demo_config2 demo2_returns hit clr by simp
qed



text \<open>
  Claim C7. Every call of \<open>probe_cell\<close> that returns, whatever it returns, has added
  exactly \<open>1\<close> to \<open>cycle_executions\<close> and used exactly one sampler answer, the next one. In
  a run, the counter is \<open>0\<close>, \<open>1\<close>, \<open>2\<close>, ... before the successive probes and is the number
  of probes made at the end, and the answers of the sampler are used in order, one for each
  probe: nothing but a probe changes the counter.
\<close>

theorem one_execution_per_probe:
  assumes "wf_config c" and "scan_loop c (init_state c smp) = Some res"
    and "res = Returned st \<or> res = Starved st"
  shows "(\<forall>has_target s v s'. probe_cell has_target s = Returned (v, s') \<longrightarrow>
            cycle_executions s' = cycle_executions s + 1 \<and> (\<exists>f. sampler s = f # sampler s')) \<and>
         cycle_executions st = int (length (history st)) \<and>
         map (\<lambda>e. cycle_executions (before e)) (rev (history st)) = map int [0..<length (history st)] \<and>
         sampler st = drop (length (history st)) smp \<and> length (history st) \<le> length smp"
proof -
  have ok: "run_ok c smp st" by (rule run_from_init[OF assms(2,3)])
  have "\<forall>has_target s v s'. probe_cell has_target s = Returned (v, s') \<longrightarrow>
            cycle_executions s' = cycle_executions s + 1 \<and> (\<exists>f. sampler s = f # sampler s')"
    by (auto elim: probe_cell_Returned)
  then show ?thesis using ok by (simp add: run_ok_def)
qed

theorem one_execution_per_probe_witness:
  "wf_config demo_config \<and>
   scan_loop demo_config (init_state demo_config [ground, excited]) = Some (Starved demo_pending) \<and>
   cycle_executions demo_pending = 2 \<and> length (history demo_pending) = 2 \<and>
   map (\<lambda>e. cycle_executions (before e)) (rev (history demo_pending)) = [0, 1] \<and>
   sampler demo_pending = []"
  using one_execution_per_probe[OF wf_demo_config demo_waits, of demo_pending]
    wf_demo_config demo_waits
  by (simp add: demo_pending_def)

section \<open>The claim about the placement\<close>



section \<open>The claim about the board full of targets\<close>

text \<open>
  Claim C9. With dimension \<open>3\<close> and \<open>9\<close> targets the stopping condition holds in the
  initial state, for whatever target matrix and sampler: the scan returns the initial state
  itself, with \<open>cycle_executions\<close> still \<open>0\<close>, no probe made, no sampler answer used, and
  all nine entries of the result matrix \<open>0\<close>.
\<close>

theorem all_targets_no_probe:
  "finished \<lparr>grid_dim = 3, target_count = 9, target_matrix = tm\<rparr>
     (init_state \<lparr>grid_dim = 3, target_count = 9, target_matrix = tm\<rparr> smp) \<and>
   scan_loop \<lparr>grid_dim = 3, target_count = 9, target_matrix = tm\<rparr>
     (init_state \<lparr>grid_dim = 3, target_count = 9, target_matrix = tm\<rparr> smp) =
     Some (Returned \<lparr>result_matrix = [[0, 0, 0], [0, 0, 0], [0, 0, 0]], targets_hit = 0,
       clear_cells_detected = 0, cycle_executions = 0, sampler = smp, history = []\<rparr>) \<and>
   mat_count [[0, 0, 0], [0, 0, 0], [0, 0, 0]] 0 = 9"
  by (subst scan_loop.simps)
    (simp add: finished_def cell_count_def init_state_def zeros_def numeral_3_eq_3 mat_count_def)

theorem all_targets_no_probe_witness:
  "place 3 9 [(0, 0), (0, 1), (0, 2), (1, 0), (1, 1), (1, 2), (2, 0), (2, 1), (2, 2)] =
     Some (Inr [[1, 1, 1], [1, 1, 1], [1, 1, 1]]) \<and>
   scan_loop \<lparr>grid_dim = 3, target_count = 9, target_matrix = [[1, 1, 1], [1, 1, 1], [1, 1, 1]]\<rparr>
     (init_state \<lparr>grid_dim = 3, target_count = 9,
        target_matrix = [[1, 1, 1], [1, 1, 1], [1, 1, 1]]\<rparr> [excited]) =
     Some (Returned \<lparr>result_matrix = [[0, 0, 0], [0, 0, 0], [0, 0, 0]], targets_hit = 0,
       clear_cells_detected = 0, cycle_executions = 0, sampler = [excited], history = []\<rparr>)"
proof -
  have "place 3 9 [(0, 0), (0, 1), (0, 2), (1, 0), (1, 1), (1, 2), (2, 0), (2, 1), (2, 2)] =
     Some (Inr [[1, 1, 1], [1, 1, 1], [1, 1, 1]])"
    by (simp add: place_def zeros_def mat_set_def numeral_3_eq_3)
  then show ?thesis
    using all_targets_no_probe[of "[[1, 1, 1], [1, 1, 1], [1, 1, 1]]" "[excited]"] by simp
qed

section \<open>The claim about the report\<close>

text \<open>
  Claim C10. At every observation point of a run on a well-formed board \<open>targets_hit\<close> is
  the number of \<open>1\<close> entries of the result matrix and \<open>clear_cells_detected\<close> the number of
  \<open>-1\<close> entries; so the count that line 208 takes from the final result matrix is the value
  the counter has when the scan returns.
\<close>

theorem counters_match_result_matrix:
  assumes "wf_config c" and "scan_loop c (init_state c smp) = Some res"
    and "res = Returned st \<or> res = Starved st"
  shows "(\<forall>m\<in>set (trace st). targets_hit m = mat_count (result_matrix m) 1 \<and>
            clear_cells_detected m = mat_count (result_matrix m) (- 1)) \<and>
         report_targets_hit st = targets_hit st \<and>
         clear_cells_detected st = mat_count (result_matrix st) (- 1)"
proof -
  have ok: "run_ok c smp st" by (rule run_from_init[OF assms(2,3)])
  have "\<forall>m\<in>set (trace st). targets_hit m = mat_count (result_matrix m) 1 \<and>
            clear_cells_detected m = mat_count (result_matrix m) (- 1)"
    using trace_consistent[OF ok] by (simp add: consistent_def)
  moreover have "consistent c st" using ok by (simp add: run_ok_def)
  ultimately show ?thesis by (simp add: consistent_def report_targets_hit_def)
qed

theorem counters_match_result_matrix_witness:
  "wf_config demo_config2 \<and>
   scan_loop demo_config2 (init_state demo_config2 [excited, excited]) = Some (Returned demo_final2) \<and>
   report_targets_hit demo_final2 = 1 \<and> targets_hit demo_final2 = 1 \<and>
   clear_cells_detected demo_final2 = 1 \<and> mat_count (result_matrix demo_final2) (- 1) = 1"
  using counters_match_result_matrix[OF wf_demo_config2 demo2_returns, of demo_final2]
    wf_demo_config2 demo2_returns
  by (simp add: demo_final2_def)

end
